theory Spec2Isabelle
  imports
    Main
    "HOL-Library.Char_ord"
    "HOL-Library.List_Lexorder"
    "HOL-Library.Multiset"
begin

section \<open>Data model: paths, imports, import clauses\<close>

text \<open>
  \<^verbatim>\<open>scala_import_sorter.py\<close> works on the clause objects produced by
  \<^verbatim>\<open>ScalaImportParser\<close>. The sorter reads \<^verbatim>\<open>clause.path\<close>
  (with \<^verbatim>\<open>path_string\<close>, \<^verbatim>\<open>path_parts\<close>, \<^verbatim>\<open>get_top_level()\<close>
  and equality), \<^verbatim>\<open>clause.imports\<close> (each import with \<^verbatim>\<open>path.get_name()\<close> and
  \<^verbatim>\<open>as_name\<close>), and calls \<^verbatim>\<open>add_import\<close>, \<^verbatim>\<open>sort_imports\<close>,
  \<^verbatim>\<open>str_no_indent\<close> and \<^verbatim>\<open>str\<close>. The classes themselves live in
  \<^verbatim>\<open>scala_import_parser.py\<close>, so their model follows the specification's
  data model (section 3) and serialization rule (section 4.3, step 5).
\<close>

text \<open>
  Modelled from the spec: the \<^verbatim>\<open>Path\<close> class of \<^verbatim>\<open>scala_import_parser.py\<close>.
  A path is an ordered sequence of at least one identifier segment; the first segment is the
  top-level package. Non-emptiness is built into the type, so \<^verbatim>\<open>path_parts[0]\<close>
  always exists. Equality is segment-wise.
\<close>

datatype path = Path (get_top_level: string) (sub_parts: "string list")

definition path_parts :: "path \<Rightarrow> string list" where
  "path_parts p = get_top_level p # sub_parts p"

text \<open>Python's \<^verbatim>\<open>sep.join(xs)\<close>.\<close>

fun join :: "string \<Rightarrow> string list \<Rightarrow> string" where
  "join sep [] = []"
| "join sep [x] = x"
| "join sep (x # y # ys) = x @ sep @ join sep (y # ys)"

text \<open>Modelled from the spec: the dotted string form of a path.\<close>

definition path_string :: "path \<Rightarrow> string" where
  "path_string p = join ''.'' (path_parts p)"

text \<open>
  Modelled from the spec: an import is a name (an identifier or the wildcard) with an optional
  alias. \<^verbatim>\<open>imp.path.get_name()\<close> of the source is \<open>imp_name\<close>.
\<close>

datatype scala_import = ScalaImport (imp_name: string) (as_name: "string option")

text \<open>
  Modelled from the spec: an import clause is a path with an ordered collection of imports.
  The spec's data model has no indentation field, so \<^verbatim>\<open>str(clause)\<close> and
  \<^verbatim>\<open>clause.str_no_indent()\<close> are the same text in this model.
\<close>

datatype import_clause = ImportClause (path: path) (clause_imports: "scala_import list")

text \<open>Modelled from the spec: \<^verbatim>\<open>add_import(name, as_name)\<close> appends one import.\<close>

definition add_import :: "string \<Rightarrow> string option \<Rightarrow> import_clause \<Rightarrow> import_clause" where
  "add_import n a c = ImportClause (path c) (clause_imports c @ [ScalaImport n a])"

text \<open>
  \<^verbatim>\<open>sort_imports()\<close> is not in the sorter's file and the spec leaves its order open
  (section 4.3, step 3), so the sorter's model takes the reordering of a clause's imports as a
  parameter \<open>srt\<close>.
\<close>

definition sort_imports :: "(scala_import list \<Rightarrow> scala_import list) \<Rightarrow> import_clause \<Rightarrow> import_clause" where
  "sort_imports srt c = ImportClause (path c) (srt (clause_imports c))"

text \<open>
  Modelled from the spec: serialization (section 4.3, step 5). A clause renders as
  \<^verbatim>\<open>import <path>.<selector>\<close>; the selector is the bare name when there is exactly one
  import without alias, otherwise a brace-enclosed, comma-separated list of \<^verbatim>\<open>name\<close> or
  \<^verbatim>\<open>name => alias\<close> tokens.
\<close>

definition import_token :: "scala_import \<Rightarrow> string" where
  "import_token i = (case as_name i of None \<Rightarrow> imp_name i | Some a \<Rightarrow> imp_name i @ '' => '' @ a)"

definition selector :: "scala_import list \<Rightarrow> string" where
  "selector imps =
     (case imps of
        [i] \<Rightarrow> (if as_name i = None then imp_name i
                else ''{'' @ join '', '' (map import_token imps) @ ''}'')
      | _ \<Rightarrow> ''{'' @ join '', '' (map import_token imps) @ ''}'')"

definition str_no_indent :: "import_clause \<Rightarrow> string" where
  "str_no_indent c = ''import '' @ path_string (path c) @ ''.'' @ selector (clause_imports c)"

definition str_clause :: "import_clause \<Rightarrow> string" where
  "str_clause c = str_no_indent c"

section \<open>The two comparators\<close>

text \<open>
  Python 2's builtin \<^verbatim>\<open>cmp(a, b)\<close>: negative, zero or positive. On strings the order is
  the lexicographic order of the characters' code points, which is the order of
  \<^theory_text>\<open>List_Lexorder\<close> over \<^theory_text>\<open>Char_ord\<close>.
\<close>

definition cmp :: "'a::linorder \<Rightarrow> 'a \<Rightarrow> int" where
  "cmp a b = (if a < b then - 1 else if a = b then 0 else 1)"

text \<open>\<^verbatim>\<open>s.replace(old, new)\<close> for one-character \<^verbatim>\<open>old\<close> and \<^verbatim>\<open>new\<close>.\<close>

definition replace :: "char \<Rightarrow> char \<Rightarrow> string \<Rightarrow> string" where
  "replace old new s = map (\<lambda>c. if c = old then new else c) s"

definition string_for_cmp :: "import_clause \<Rightarrow> string" where
  "string_for_cmp clause = replace (CHR ''{'') (CHR '' '') (str_no_indent clause)"

definition cmp_clauses :: "import_clause \<Rightarrow> import_clause \<Rightarrow> int" where
  "cmp_clauses left right = cmp (string_for_cmp left) (string_for_cmp right)"

text \<open>The dictionary \<^verbatim>\<open>_special_cases\<close>, with \<^verbatim>\<open>d.get(k, default)\<close> and \<^verbatim>\<open>k in d\<close>.\<close>

definition special_cases :: "(string \<times> string) list" where
  "special_cases =
     [(''java'', ''aaa0''), (''javax'', ''aaa1''), (''scala'', ''aaa2''), (''scalax'', ''aaa3'')]"

definition dict_get :: "('k \<times> 'v) list \<Rightarrow> 'k \<Rightarrow> 'v \<Rightarrow> 'v" where
  "dict_get d k dflt = (case map_of d k of None \<Rightarrow> dflt | Some v \<Rightarrow> v)"

definition dict_contains :: "('k \<times> 'v) list \<Rightarrow> 'k \<Rightarrow> bool" where
  "dict_contains d k = (map_of d k \<noteq> None)"

text \<open>
  The fancy comparator builds \<^verbatim>\<open>left_sort_key\<close> and \<^verbatim>\<open>right_sort_key\<close> in the
  same way; \<open>fancy_sort_key\<close> names that key for the proofs.
\<close>

definition fancy_sort_key :: "import_clause \<Rightarrow> string" where
  "fancy_sort_key clause =
     dict_get special_cases (hd (path_parts (path clause))) '''' @ path_string (path clause)"

definition cmp_clauses_fancy :: "import_clause \<Rightarrow> import_clause \<Rightarrow> int" where
  "cmp_clauses_fancy left right =
     (let left_str = path_string (path left);
          right_str = path_string (path right);
          left_root = hd (path_parts (path left));
          right_root = hd (path_parts (path right));
          left_sort_key = dict_get special_cases left_root '''' @ left_str;
          right_sort_key = dict_get special_cases right_root '''' @ right_str
      in cmp left_sort_key right_sort_key)"

section \<open>Processing one import block\<close>

text \<open>
  \<^verbatim>\<open>sorted(clauses, cmp=f)\<close> is a stable sort. It is modelled as the stable insertion
  sort that puts \<open>x\<close> in front of the first \<open>y\<close> with \<open>f x y \<le> 0\<close>; for a comparator
  that compares keys, as both comparators here do, every stable sort returns this list.
\<close>

fun py_insort :: "('a \<Rightarrow> 'a \<Rightarrow> int) \<Rightarrow> 'a \<Rightarrow> 'a list \<Rightarrow> 'a list" where
  "py_insort f x [] = [x]"
| "py_insort f x (y # ys) = (if f x y \<le> 0 then x # y # ys else y # py_insort f x ys)"

definition py_sorted :: "('a \<Rightarrow> 'a \<Rightarrow> int) \<Rightarrow> 'a list \<Rightarrow> 'a list" where
  "py_sorted f xs = foldr (py_insort f) xs []"

text \<open>
  \<^verbatim>\<open>_process_import_block\<close> in three steps: the list \<^verbatim>\<open>sorted_clauses\<close>, the
  merge loop that builds \<^verbatim>\<open>merged_clauses\<close>, and the output loop that builds
  \<^verbatim>\<open>lines\<close>. The flag \<open>fancy\<close> is \<^verbatim>\<open>self._fancy\<close>.
\<close>

definition sorted_clauses :: "bool \<Rightarrow> import_clause list \<Rightarrow> import_clause list" where
  "sorted_clauses fancy clauses =
     py_sorted (if fancy then cmp_clauses_fancy else cmp_clauses) clauses"

text \<open>
  The merge loop. \<^verbatim>\<open>current_clause\<close> is \<^verbatim>\<open>None\<close> exactly while
  \<^verbatim>\<open>merged_clauses\<close> is empty, and afterwards it is the object appended last, so the state
  of the loop is the list \<^verbatim>\<open>merged_clauses\<close> and \<^verbatim>\<open>add_import\<close> on
  \<^verbatim>\<open>current_clause\<close> updates its last element.
\<close>

definition absorb :: "import_clause \<Rightarrow> import_clause \<Rightarrow> import_clause" where
  "absorb current_clause clause =
     fold (\<lambda>imp cur. add_import (imp_name imp) (as_name imp) cur) (clause_imports clause) current_clause"

definition merge_step :: "import_clause list \<Rightarrow> import_clause \<Rightarrow> import_clause list" where
  "merge_step merged_clauses clause =
     (if merged_clauses \<noteq> [] \<and> path (last merged_clauses) = path clause
      then butlast merged_clauses @ [absorb (last merged_clauses) clause]
      else merged_clauses @ [clause])"

definition merge_clauses :: "import_clause list \<Rightarrow> import_clause list" where
  "merge_clauses sorted_cs = foldl merge_step [] sorted_cs"

text \<open>
  The output loop. Its state is the list \<^verbatim>\<open>lines\<close>, the flag
  \<^verbatim>\<open>in_special_case_block\<close> and, because \<^verbatim>\<open>sort_imports\<close> updates each clause
  in place, the clauses in their final form.
\<close>

fun lines_loop ::
  "bool \<Rightarrow> (scala_import list \<Rightarrow> scala_import list) \<Rightarrow> import_clause list \<Rightarrow>
   string list \<times> bool \<times> import_clause list \<Rightarrow> string list \<times> bool \<times> import_clause list" where
  "lines_loop fancy srt [] st = st"
| "lines_loop fancy srt (clause # rest) (lines, in_special_case_block, outc) =
     (let clause' = sort_imports srt clause in
      if fancy \<and> dict_contains special_cases (get_top_level (path clause'))
      then lines_loop fancy srt rest (lines @ [str_clause clause'], True, outc @ [clause'])
      else if fancy
      then lines_loop fancy srt rest
             ((if in_special_case_block then lines @ [''''] else lines) @ [str_clause clause'],
              False, outc @ [clause'])
      else lines_loop fancy srt rest
             (lines @ [str_clause clause'], in_special_case_block, outc @ [clause']))"

definition block_lines ::
  "bool \<Rightarrow> (scala_import list \<Rightarrow> scala_import list) \<Rightarrow> import_clause list \<Rightarrow> string list" where
  "block_lines fancy srt clauses =
     fst (lines_loop fancy srt (merge_clauses (sorted_clauses fancy clauses)) ([], False, []))"

definition processed_clauses ::
  "bool \<Rightarrow> (scala_import list \<Rightarrow> scala_import list) \<Rightarrow> import_clause list \<Rightarrow> import_clause list" where
  "processed_clauses fancy srt clauses =
     snd (snd (lines_loop fancy srt (merge_clauses (sorted_clauses fancy clauses)) ([], False, [])))"

definition process_import_block ::
  "bool \<Rightarrow> (scala_import list \<Rightarrow> scala_import list) \<Rightarrow> import_clause list \<Rightarrow> string" where
  "process_import_block fancy srt clauses = join [CHR 10] (block_lines fancy srt clauses) @ [CHR 10]"

text \<open>
  Modelled from the spec: one admissible \<^verbatim>\<open>sort_imports\<close> order, alphabetical by name
  (ties keep their order). It instantiates \<open>srt\<close> in the concrete examples.
\<close>

definition sort_by_name :: "scala_import list \<Rightarrow> scala_import list" where
  "sort_by_name imps = sort_key imp_name imps"

section \<open>Driving the rewrite cursor\<close>

text \<open>
  Modelled from the spec: the rewrite cursor of \<^verbatim>\<open>ScalaSourceFileRewriter\<close> and the
  two recognition modes of \<^verbatim>\<open>ScalaImportParser\<close> (sections 4.1 and 6). The text
  ahead of the cursor is a sequence of items: a whole import statement (already parsed into
  its clause), a blank line, or any other text. The cursor is the pair of the items still
  ahead and the output emitted so far.
  \<^item> \<^verbatim>\<open>search\<close> passes every item that is not an import statement through to the
    output and consumes the first import statement, or reaches the end of the input;
  \<^item> \<^verbatim>\<open>match\<close> consumes an import statement that starts exactly at the cursor and
    otherwise leaves the cursor where it is;
  \<^item> \<^verbatim>\<open>skip_blank_lines\<close> consumes the blank lines at the cursor and counts them;
  \<^item> \<^verbatim>\<open>emit\<close> appends text to the output.
\<close>

datatype source_item = ImportStatement import_clause | BlankLine | OtherText string

type_synonym rewrite_cursor = "source_item list \<times> string"

fun parser_search :: "rewrite_cursor \<Rightarrow> import_clause option \<times> rewrite_cursor" where
  "parser_search ([], out) = (None, ([], out))"
| "parser_search (ImportStatement c # rest, out) = (Some c, (rest, out))"
| "parser_search (BlankLine # rest, out) = parser_search (rest, out @ [CHR 10])"
| "parser_search (OtherText t # rest, out) = parser_search (rest, out @ t)"

fun parser_match :: "rewrite_cursor \<Rightarrow> import_clause option \<times> rewrite_cursor" where
  "parser_match (ImportStatement c # rest, out) = (Some c, (rest, out))"
| "parser_match cur = (None, cur)"

fun skip_blank_lines :: "rewrite_cursor \<Rightarrow> nat \<times> rewrite_cursor" where
  "skip_blank_lines (BlankLine # rest, out) =
     (case skip_blank_lines (rest, out) of (n, cur) \<Rightarrow> (Suc n, cur))"
| "skip_blank_lines cur = (0, cur)"

definition emit :: "string \<Rightarrow> rewrite_cursor \<Rightarrow> rewrite_cursor" where
  "emit text cur = (fst cur, snd cur @ text)"

lemma skip_blank_lines_length:
  "skip_blank_lines cur = (n, cur') \<Longrightarrow> length (fst cur') \<le> length (fst cur)"
  by (induction cur arbitrary: n cur' rule: skip_blank_lines.induct)
     (auto split: prod.splits)

lemma parser_match_length:
  "parser_match cur = (Some c, cur') \<Longrightarrow> length (fst cur') < length (fst cur)"
  by (induction cur rule: parser_match.induct) auto

lemma parser_search_length:
  "parser_search cur = (Some c, cur') \<Longrightarrow> length (fst cur') < length (fst cur)"
  by (induction cur arbitrary: c cur' rule: parser_search.induct) fastforce+

text \<open>
  The inner loop of \<^verbatim>\<open>apply_to_rewrite_cursor\<close>: it runs while
  \<^verbatim>\<open>import_clause\<close> is not \<^verbatim>\<open>None\<close>, overwrites
  \<^verbatim>\<open>num_blank_lines\<close> in every round and appends the clause to the block.
\<close>

function collect_block ::
  "import_clause \<Rightarrow> import_clause list \<Rightarrow> rewrite_cursor \<Rightarrow>
   import_clause list \<times> nat \<times> rewrite_cursor" where
  "collect_block import_clause import_block cur =
     (case skip_blank_lines cur of
        (num_blank_lines, cur1) \<Rightarrow>
          (case parser_match cur1 of
             (None, cur2) \<Rightarrow> (import_block @ [import_clause], num_blank_lines, cur2)
           | (Some next_clause, cur2) \<Rightarrow>
               collect_block next_clause (import_block @ [import_clause]) cur2))"
  by pat_completeness auto
termination
proof (relation "measure (\<lambda>(c, b, cur). length (fst cur))")
  show "wf (measure (\<lambda>(c, b, cur). length (fst cur)))" by simp
next
  fix import_clause :: import_clause and import_block :: "import_clause list"
    and cur :: rewrite_cursor and n cur1 m cur2 next_clause
  assume "(n, cur1) = skip_blank_lines cur" "(m, cur2) = parser_match cur1" "m = Some next_clause"
  then have "length (fst cur2) < length (fst cur1)" "length (fst cur1) \<le> length (fst cur)"
    using parser_match_length[of cur1 next_clause cur2] skip_blank_lines_length[of cur n cur1]
    by simp_all
  then show "((next_clause, import_block @ [import_clause], cur2), import_clause, import_block, cur)
      \<in> measure (\<lambda>(c, b, cur). length (fst cur))"
    by simp
qed

lemma collect_block_length:
  "collect_block c b cur = (blk, n, cur') \<Longrightarrow> length (fst cur') \<le> length (fst cur)"
proof (induction c b cur arbitrary: blk n cur' rule: collect_block.induct)
  case (1 c b cur)
  obtain k cur1 where s: "skip_blank_lines cur = (k, cur1)" by (cases "skip_blank_lines cur")
  obtain m cur2 where p: "parser_match cur1 = (m, cur2)" by (cases "parser_match cur1")
  have l1: "length (fst cur1) \<le> length (fst cur)" using skip_blank_lines_length[OF s] .
  show ?case
  proof (cases m)
    case None
    with s p "1.prems" have "cur' = cur2" by simp
    moreover from p None have "cur2 = cur1" by (cases cur1 rule: parser_match.cases) auto
    ultimately show ?thesis using l1 by simp
  next
    case (Some d)
    with s p "1.prems" have "collect_block d (b @ [c]) cur2 = (blk, n, cur')" by simp
    from "1.IH"[OF s[symmetric] p[symmetric] Some this]
    have "length (fst cur') \<le> length (fst cur2)" .
    moreover have "length (fst cur2) < length (fst cur1)"
      using parser_match_length p Some by blast
    ultimately show ?thesis using l1 by simp
  qed
qed

text \<open>
  The outer loop: it runs while the last \<^verbatim>\<open>search\<close> found a clause, collects the
  block that starts with it, emits the processed block and then
  \<^verbatim>\<open>'\n' * num_blank_lines\<close>, and searches for the next block.
\<close>

function apply_loop ::
  "bool \<Rightarrow> (scala_import list \<Rightarrow> scala_import list) \<Rightarrow>
   import_clause option \<times> rewrite_cursor \<Rightarrow> rewrite_cursor" where
  "apply_loop fancy srt (None, cur) = cur"
| "apply_loop fancy srt (Some import_clause, cur) =
     (case collect_block import_clause [] cur of
        (import_block, num_blank_lines, cur1) \<Rightarrow>
          apply_loop fancy srt
            (parser_search
               (emit (replicate num_blank_lines (CHR 10))
                  (emit (process_import_block fancy srt import_block) cur1))))"
  by pat_completeness auto
termination
proof (relation "measure (\<lambda>(f, s, x, cur). case x of None \<Rightarrow> 0 | Some c \<Rightarrow> Suc (length (fst cur)))")
  show "wf (measure (\<lambda>(f, s, x, cur). case x of None \<Rightarrow> 0 | Some c \<Rightarrow> Suc (length (fst cur))))"
    by simp
next
  fix fancy :: bool and srt :: "scala_import list \<Rightarrow> scala_import list"
    and import_clause :: import_clause and cur :: rewrite_cursor
    and import_block y num_blank_lines cur1
  assume a: "(import_block, y) = collect_block import_clause [] cur" "(num_blank_lines, cur1) = y"
  let ?cur3 = "emit (replicate num_blank_lines (CHR 10)) (emit (process_import_block fancy srt import_block) cur1)"
  from a have "collect_block import_clause [] cur = (import_block, num_blank_lines, cur1)" by simp
  then have l: "length (fst cur1) \<le> length (fst cur)" by (rule collect_block_length)
  have e: "fst ?cur3 = fst cur1" by (simp add: emit_def)
  obtain x cur4 where s: "parser_search ?cur3 = (x, cur4)" by (cases "parser_search ?cur3")
  have "(case x of None \<Rightarrow> 0 | Some c \<Rightarrow> Suc (length (fst cur4))) < Suc (length (fst cur))"
  proof (cases x)
    case None
    then show ?thesis by simp
  next
    case (Some d)
    with s have "length (fst cur4) < length (fst ?cur3)" using parser_search_length by blast
    with e l Some show ?thesis by simp
  qed
  with s show "((fancy, srt, parser_search ?cur3), fancy, srt, Some import_clause, cur)
      \<in> measure (\<lambda>(f, s, x, cur). case x of None \<Rightarrow> 0 | Some c \<Rightarrow> Suc (length (fst cur)))"
    by simp
qed

definition apply_to_rewrite_cursor ::
  "bool \<Rightarrow> (scala_import list \<Rightarrow> scala_import list) \<Rightarrow> rewrite_cursor \<Rightarrow> rewrite_cursor" where
  "apply_to_rewrite_cursor fancy srt cur = apply_loop fancy srt (parser_search cur)"

section \<open>The specification's words, for comparison with the code\<close>

text \<open>
  Ordinary lexicographic comparison of two strings by code point, with the sign convention
  of \<^verbatim>\<open>cmp\<close>.
\<close>

fun lex_cmp :: "string \<Rightarrow> string \<Rightarrow> int" where
  "lex_cmp [] [] = 0"
| "lex_cmp [] (y # ys) = - 1"
| "lex_cmp (x # xs) [] = 1"
| "lex_cmp (x # xs) (y # ys) =
     (if (of_char x :: nat) < of_char y then - 1
      else if (of_char y :: nat) < of_char x then 1
      else lex_cmp xs ys)"

text \<open>Every \<^verbatim>\<open>{\<close> mapped to a single space.\<close>

fun brace_to_space :: "string \<Rightarrow> string" where
  "brace_to_space [] = []"
| "brace_to_space (c # cs) = (if c = CHR ''{'' then CHR '' '' else c) # brace_to_space cs"

text \<open>The rank prefix of the fancy policy, as the specification tabulates it.\<close>

definition rank_prefix :: "string \<Rightarrow> string" where
  "rank_prefix root =
     (if root = ''java'' then ''aaa0''
      else if root = ''javax'' then ''aaa1''
      else if root = ''scala'' then ''aaa2''
      else if root = ''scalax'' then ''aaa3''
      else '''')"

definition is_letter :: "char \<Rightarrow> bool" where
  "is_letter c = ((CHR ''a'' \<le> c \<and> c \<le> CHR ''z'') \<or> (CHR ''A'' \<le> c \<and> c \<le> CHR ''Z''))"

text \<open>A clause is special when its top-level segment is a key of \<^verbatim>\<open>_special_cases\<close>.\<close>

definition is_special :: "import_clause \<Rightarrow> bool" where
  "is_special c = dict_contains special_cases (get_top_level (path c))"

text \<open>The (path, name, alias) triples of a clause and of a list of clauses.\<close>

definition clause_triples :: "import_clause \<Rightarrow> (path \<times> string \<times> string option) list" where
  "clause_triples c = map (\<lambda>i. (path c, imp_name i, as_name i)) (clause_imports c)"

definition block_triples :: "import_clause list \<Rightarrow> (path \<times> string \<times> string option) list" where
  "block_triples cs = concat (map clause_triples cs)"




text \<open>
  Two reformulations used in the proofs: the key each comparator compares, and the merge
  loop as a recursion that carries \<^verbatim>\<open>current_clause\<close>.
\<close>

definition clause_sort_key :: "bool \<Rightarrow> import_clause \<Rightarrow> string" where
  "clause_sort_key fancy = (if fancy then fancy_sort_key else string_for_cmp)"

fun merge_adj :: "import_clause \<Rightarrow> import_clause list \<Rightarrow> import_clause list" where
  "merge_adj cur [] = [cur]"
| "merge_adj cur (x # xs) =
     (if path cur = path x then merge_adj (absorb cur x) xs else cur # merge_adj x xs)"

text \<open>
  The items of a block: each statement followed by its run of blank lines. A block ends at
  the end of the input or at text that is neither an import statement nor a blank line.
\<close>

definition block_items :: "(import_clause \<times> nat) list \<Rightarrow> source_item list" where
  "block_items bs = concat (map (\<lambda>(c, k). ImportStatement c # replicate k BlankLine) bs)"

fun block_ends :: "source_item list \<Rightarrow> bool" where
  "block_ends [] = True"
| "block_ends (OtherText t # rest) = True"
| "block_ends (x # rest) = False"

section \<open>The comparators\<close>

lemma cmp_string_lex: "cmp (s :: string) t = lex_cmp s t"
proof (induction s t rule: lex_cmp.induct)
  case (4 x xs y ys)
  then show ?case
    by (auto simp: cmp_def less_char_def split: if_splits)
qed (simp_all add: cmp_def)

lemma replace_brace: "replace (CHR ''{'') (CHR '' '') s = brace_to_space s"
  by (induction s) (simp_all add: replace_def)

text \<open>
  C5. The strict comparator is the lexicographic code-point comparison of the two clauses'
  canonical texts (\<^verbatim>\<open>str_no_indent\<close>) after every \<^verbatim>\<open>{\<close> has been replaced by a
  space.
\<close>

theorem strict_comparator_is_lexicographic:
  "cmp_clauses left right =
     lex_cmp (brace_to_space (str_no_indent left)) (brace_to_space (str_no_indent right))"
  by (simp add: cmp_clauses_def string_for_cmp_def cmp_string_lex replace_brace)

lemma dict_get_special: "dict_get special_cases root '''' = rank_prefix root"
  by (simp add: dict_get_def special_cases_def rank_prefix_def)

text \<open>
  C7. The fancy comparator is the lexicographic comparison of rank prefix followed by dotted
  path string, where the rank prefix is \<^verbatim>\<open>aaa0\<close> for top-level segment java,
  \<^verbatim>\<open>aaa1\<close> for javax, \<^verbatim>\<open>aaa2\<close> for scala, \<^verbatim>\<open>aaa3\<close> for scalax and empty
  for every other top-level segment.
\<close>

theorem fancy_comparator_is_ranked_lexicographic:
  "cmp_clauses_fancy left right =
     lex_cmp (rank_prefix (get_top_level (path left)) @ path_string (path left))
             (rank_prefix (get_top_level (path right)) @ path_string (path right))"
  by (simp add: cmp_clauses_fancy_def Let_def cmp_string_lex dict_get_special path_parts_def)

lemma less_common_prefix: "a < b \<Longrightarrow> p @ a # s < p @ b # (t :: 'a :: linorder list)"
  by (induction p) simp_all

lemma space_less_letter: "is_letter c \<Longrightarrow> CHR '' '' < c"
  unfolding is_letter_def by (auto simp: less_char_def less_eq_char_def)

lemma letter_not_brace: "is_letter c \<Longrightarrow> c \<noteq> CHR ''{''"
  unfolding is_letter_def by (auto simp: less_char_def less_eq_char_def)

text \<open>
  C6. When the canonical texts of two clauses agree up to a position where one has
  \<^verbatim>\<open>{\<close> and the other a letter, the strict comparator puts the braced clause strictly
  first, and so does the sort, whichever way round the two clauses come in.
\<close>

theorem braced_clause_sorts_first:
  assumes "str_no_indent l = p @ CHR ''{'' # s"
    and "str_no_indent r = p @ c # t"
    and "is_letter c"
  shows "cmp_clauses l r < 0 \<and> 0 < cmp_clauses r l
    \<and> py_sorted cmp_clauses [r, l] = [l, r] \<and> py_sorted cmp_clauses [l, r] = [l, r]"
proof -
  have "string_for_cmp l < string_for_cmp r"
    using assms space_less_letter[of c] letter_not_brace[of c]
    by (simp add: string_for_cmp_def replace_def less_common_prefix)
  then show ?thesis
    by (auto simp: cmp_clauses_def cmp_def py_sorted_def)
qed

theorem braced_clause_sorts_first_witness:
  "str_no_indent (ImportClause (Path ''foo'' [''bar'']) [ScalaImport ''Bar1'' None, ScalaImport ''Bar2'' None])
     = ''import foo.bar.'' @ CHR ''{'' # ''Bar1, Bar2}''
   \<and> str_no_indent (ImportClause (Path ''foo'' [''bar'', ''Baz'']) [ScalaImport ''_'' None])
     = ''import foo.bar.'' @ CHR ''B'' # ''az._''
   \<and> is_letter (CHR ''B'')
   \<and> cmp_clauses (ImportClause (Path ''foo'' [''bar'']) [ScalaImport ''Bar1'' None, ScalaImport ''Bar2'' None])
        (ImportClause (Path ''foo'' [''bar'', ''Baz'']) [ScalaImport ''_'' None]) < 0"
proof -
  let ?l = "ImportClause (Path ''foo'' [''bar'']) [ScalaImport ''Bar1'' None, ScalaImport ''Bar2'' None]"
  let ?r = "ImportClause (Path ''foo'' [''bar'', ''Baz'']) [ScalaImport ''_'' None]"
  have h1: "str_no_indent ?l = ''import foo.bar.'' @ CHR ''{'' # ''Bar1, Bar2}''"
    by (simp add: str_no_indent_def path_string_def path_parts_def selector_def import_token_def)
  have h2: "str_no_indent ?r = ''import foo.bar.'' @ CHR ''B'' # ''az._''"
    by (simp add: str_no_indent_def path_string_def path_parts_def selector_def import_token_def)
  have h3: "is_letter (CHR ''B'')"
    by (simp add: is_letter_def)
  from braced_clause_sorts_first[OF h1 h2 h3] h1 h2 h3 show ?thesis by blast
qed

section \<open>Sorting, merging and the output loop\<close>

lemma cmp_le_zero: "cmp a b \<le> 0 \<longleftrightarrow> a \<le> b"
  by (auto simp: cmp_def)

lemma py_insort_by_key: "py_insort (\<lambda>a b. cmp (k a) (k b)) x ys = insort_key k x ys"
  by (induction ys) (simp_all add: cmp_le_zero)

lemma py_sorted_by_key: "py_sorted (\<lambda>a b. cmp (k a) (k b)) xs = sort_key k xs"
  by (induction xs) (simp_all add: py_sorted_def py_insort_by_key)

lemma cmp_clauses_by_key: "cmp_clauses = (\<lambda>a b. cmp (string_for_cmp a) (string_for_cmp b))"
  by (simp add: fun_eq_iff cmp_clauses_def)

lemma cmp_clauses_fancy_by_key:
  "cmp_clauses_fancy = (\<lambda>a b. cmp (fancy_sort_key a) (fancy_sort_key b))"
  by (simp add: fun_eq_iff cmp_clauses_fancy_def fancy_sort_key_def Let_def)

lemma sorted_clauses_sort_key:
  "sorted_clauses fancy cs = sort_key (clause_sort_key fancy) cs"
  by (simp add: sorted_clauses_def clause_sort_key_def cmp_clauses_by_key
      cmp_clauses_fancy_by_key py_sorted_by_key)

lemma mset_sorted_clauses: "mset (sorted_clauses fancy cs) = mset cs"
  by (simp add: sorted_clauses_sort_key)

lemma fold_add_import:
  "fold (\<lambda>imp cur. add_import (imp_name imp) (as_name imp) cur) imps c
     = ImportClause (path c) (clause_imports c @ imps)"
  by (induction imps arbitrary: c) (simp_all add: add_import_def)

lemma absorb_eq: "absorb cur x = ImportClause (path cur) (clause_imports cur @ clause_imports x)"
  by (simp add: absorb_def fold_add_import)

lemma path_absorb: "path (absorb cur x) = path cur"
  by (simp add: absorb_eq)

lemma foldl_merge_step:
  "foldl merge_step (ms @ [cur]) xs = ms @ merge_adj cur xs"
proof (induction xs arbitrary: ms cur)
  case Nil
  show ?case by simp
next
  case (Cons x xs)
  show ?case
  proof (cases "path cur = path x")
    case True
    then have "merge_step (ms @ [cur]) x = ms @ [absorb cur x]"
      by (simp add: merge_step_def)
    with Cons.IH[of ms "absorb cur x"] True show ?thesis by simp
  next
    case False
    then have "merge_step (ms @ [cur]) x = (ms @ [cur]) @ [x]"
      by (simp add: merge_step_def)
    with Cons.IH[of "ms @ [cur]" x] False show ?thesis by simp
  qed
qed

lemma merge_clauses_Nil: "merge_clauses [] = []"
  by (simp add: merge_clauses_def)

lemma merge_clauses_Cons: "merge_clauses (x # xs) = merge_adj x xs"
  using foldl_merge_step[of "[]" x xs] by (simp add: merge_clauses_def merge_step_def)

lemma path_merge_adj: "map path (merge_adj cur xs) = remdups_adj (path cur # map path xs)"
  by (induction xs arbitrary: cur) (simp_all add: path_absorb)

lemma path_merge_clauses: "map path (merge_clauses xs) = remdups_adj (map path xs)"
  by (cases xs) (simp_all add: merge_clauses_Nil merge_clauses_Cons path_merge_adj)



lemma triples_merge_adj:
  "block_triples (merge_adj cur xs) = block_triples (cur # xs)"
  by (induction xs arbitrary: cur) (simp_all add: block_triples_def clause_triples_def absorb_eq)

lemma triples_merge_clauses: "block_triples (merge_clauses xs) = block_triples xs"
  by (cases xs) (simp_all add: merge_clauses_Nil merge_clauses_Cons triples_merge_adj)

lemma lines_loop_clauses:
  "snd (snd (lines_loop fancy srt ms (ls, b, out))) = out @ map (sort_imports srt) ms"
  by (induction ms arbitrary: ls b out) (auto simp: Let_def)

lemma processed_clauses_eq:
  "processed_clauses fancy srt cs = map (sort_imports srt) (merge_clauses (sorted_clauses fancy cs))"
  by (simp add: processed_clauses_def lines_loop_clauses)


subsection \<open>Content preservation\<close>

lemma mset_concat_map_cong:
  "mset xs = mset ys \<Longrightarrow> mset (concat (map f xs)) = mset (concat (map f ys))"
proof -
  have "mset (concat (map f zs)) = (\<Sum>z\<in>#mset zs. mset (f z))" for zs
    by (induction zs) simp_all
  then show "mset xs = mset ys \<Longrightarrow> ?thesis" by simp
qed

lemma triples_sort_imports:
  assumes "\<And>xs. mset (srt xs) = mset xs"
  shows "mset (clause_triples (sort_imports srt c)) = mset (clause_triples c)"
  by (simp add: clause_triples_def sort_imports_def assms)

lemma triples_map_sort_imports:
  assumes "\<And>xs. mset (srt xs) = mset xs"
  shows "mset (block_triples (map (sort_imports srt) ms)) = mset (block_triples ms)"
  by (induction ms) (simp_all add: block_triples_def triples_sort_imports[OF assms])

text \<open>
  C3. For every block and either policy, the multiset of (path, name, alias) triples of the
  processed clauses equals that of the input clauses, for every \<^verbatim>\<open>sort_imports\<close>
  that only reorders a clause's imports.
\<close>

theorem imports_preserved:
  assumes "\<And>xs. mset (srt xs) = mset xs"
  shows "mset (block_triples (processed_clauses fancy srt cs)) = mset (block_triples cs)"
proof -
  have "mset (block_triples (processed_clauses fancy srt cs))
      = mset (block_triples (merge_clauses (sorted_clauses fancy cs)))"
    by (simp add: processed_clauses_eq triples_map_sort_imports[OF assms])
  also have "\<dots> = mset (block_triples (sorted_clauses fancy cs))"
    by (simp add: triples_merge_clauses)
  also have "\<dots> = mset (block_triples cs)"
    unfolding block_triples_def by (rule mset_concat_map_cong) (rule mset_sorted_clauses)
  finally show ?thesis .
qed

lemma mset_sort_by_name: "mset (sort_by_name xs) = mset xs"
  by (simp add: sort_by_name_def)

theorem imports_preserved_witness:
  "(\<forall>xs. mset (sort_by_name xs) = mset xs)
   \<and> processed_clauses False sort_by_name
        [ImportClause (Path ''a'' [''b'']) [ScalaImport ''D'' None],
         ImportClause (Path ''x'' []) [ScalaImport ''Y'' (Some ''Z'')],
         ImportClause (Path ''a'' [''b'']) [ScalaImport ''C'' None, ScalaImport ''D'' None]]
      = [ImportClause (Path ''a'' [''b''])
           [ScalaImport ''C'' None, ScalaImport ''D'' None, ScalaImport ''D'' None],
         ImportClause (Path ''x'' []) [ScalaImport ''Y'' (Some ''Z'')]]
   \<and> mset (block_triples (processed_clauses False sort_by_name
        [ImportClause (Path ''a'' [''b'']) [ScalaImport ''D'' None],
         ImportClause (Path ''x'' []) [ScalaImport ''Y'' (Some ''Z'')],
         ImportClause (Path ''a'' [''b'']) [ScalaImport ''C'' None, ScalaImport ''D'' None]]))
      = mset (block_triples
        [ImportClause (Path ''a'' [''b'']) [ScalaImport ''D'' None],
         ImportClause (Path ''x'' []) [ScalaImport ''Y'' (Some ''Z'')],
         ImportClause (Path ''a'' [''b'']) [ScalaImport ''C'' None, ScalaImport ''D'' None]])"
proof -
  let ?cs = "[ImportClause (Path ''a'' [''b'']) [ScalaImport ''D'' None],
         ImportClause (Path ''x'' []) [ScalaImport ''Y'' (Some ''Z'')],
         ImportClause (Path ''a'' [''b'']) [ScalaImport ''C'' None, ScalaImport ''D'' None]]"
  have h: "mset (sort_by_name xs) = mset xs" for xs by (rule mset_sort_by_name)
  have v: "processed_clauses False sort_by_name ?cs
      = [ImportClause (Path ''a'' [''b''])
           [ScalaImport ''C'' None, ScalaImport ''D'' None, ScalaImport ''D'' None],
         ImportClause (Path ''x'' []) [ScalaImport ''Y'' (Some ''Z'')]]"
    by code_simp
  from imports_preserved[of sort_by_name False ?cs, OF h] h v show ?thesis by blast
qed

subsection \<open>Paths of the processed clauses\<close>


lemma path_sort_imports: "path (sort_imports srt c) = path c"
  by (simp add: sort_imports_def)

lemma path_processed_clauses:
  "map path (processed_clauses fancy srt cs) = remdups_adj (map path (sorted_clauses fancy cs))"
  by (simp add: processed_clauses_eq path_sort_imports path_merge_clauses o_def)

lemma set_sorted_clauses: "set (sorted_clauses fancy cs) = set cs"
  by (simp add: sorted_clauses_sort_key)

subsection \<open>Grouping in fancy mode\<close>

lemma is_special_sort_imports: "is_special (sort_imports srt c) = is_special c"
  by (simp add: is_special_def sort_imports_def)

lemma sorted_wrt_remdups_adj:
  "sorted_wrt R xs \<Longrightarrow> sorted_wrt R (remdups_adj xs)"
  by (induction xs rule: remdups_adj.induct) auto

lemma split_by_sorted_wrt:
  "sorted_wrt (\<lambda>a b. P b \<longrightarrow> P a) xs \<Longrightarrow> xs = filter P xs @ filter (\<lambda>c. \<not> P c) xs"
proof (induction xs)
  case Nil
  show ?case by simp
next
  case (Cons x xs)
  then have ih: "xs = filter P xs @ filter (\<lambda>c. \<not> P c) xs"
    and hd: "\<forall>y\<in>set xs. P y \<longrightarrow> P x"
    by simp_all
  show ?case
  proof (cases "P x")
    case True
    with ih show ?thesis by simp
  next
    case False
    with hd have "\<forall>y\<in>set xs. \<not> P y" by blast
    then have "filter P xs = []" "filter (\<lambda>c. \<not> P c) xs = xs"
      by (simp_all add: filter_empty_conv filter_id_conv)
    with False show ?thesis by simp
  qed
qed

lemma lines_loop_rest:
  "\<forall>c\<in>set ms. \<not> is_special c \<Longrightarrow>
   fst (lines_loop True srt ms (ls, b, out))
     = ls @ (if b \<and> ms \<noteq> [] then [''''] else []) @ map (\<lambda>c. str_clause (sort_imports srt c)) ms"
proof (induction ms arbitrary: ls b out)
  case Nil
  show ?case by simp
next
  case (Cons m ms)
  then have "\<not> dict_contains special_cases (get_top_level (path (sort_imports srt m)))"
    using is_special_sort_imports[of srt m] by (simp add: is_special_def)
  moreover from Cons.prems have "\<forall>c\<in>set ms. \<not> is_special c" by simp
  ultimately show ?case using Cons.IH by (simp add: Let_def)
qed

lemma lines_loop_special:
  "\<forall>c\<in>set sp. is_special c \<Longrightarrow>
   lines_loop True srt (sp @ rest) (ls, b, out)
     = lines_loop True srt rest
         (ls @ map (\<lambda>c. str_clause (sort_imports srt c)) sp, b \<or> sp \<noteq> [],
          out @ map (sort_imports srt) sp)"
proof (induction sp arbitrary: ls b out)
  case Nil
  show ?case by simp
next
  case (Cons m sp)
  then have "dict_contains special_cases (get_top_level (path (sort_imports srt m)))"
    using is_special_sort_imports[of srt m] by (simp add: is_special_def)
  moreover from Cons.prems have "\<forall>c\<in>set sp. is_special c" by simp
  ultimately show ?case using Cons.IH by (simp add: Let_def)
qed

lemma lines_loop_grouped:
  assumes "sorted_wrt (\<lambda>a b. is_special b \<longrightarrow> is_special a) ms"
  shows "fst (lines_loop True srt ms ([], False, []))
     = map (\<lambda>c. str_clause (sort_imports srt c)) (filter is_special ms)
       @ (if filter is_special ms \<noteq> [] \<and> filter (\<lambda>c. \<not> is_special c) ms \<noteq> [] then [''''] else [])
       @ map (\<lambda>c. str_clause (sort_imports srt c)) (filter (\<lambda>c. \<not> is_special c) ms)"
proof -
  let ?sp = "filter is_special ms" and ?rest = "filter (\<lambda>c. \<not> is_special c) ms"
  have ms: "ms = ?sp @ ?rest" using assms by (rule split_by_sorted_wrt)
  have "fst (lines_loop True srt (?sp @ ?rest) ([], False, []))
      = fst (lines_loop True srt ?rest
          ([] @ map (\<lambda>c. str_clause (sort_imports srt c)) ?sp, False \<or> ?sp \<noteq> [],
           [] @ map (sort_imports srt) ?sp))"
    by (subst lines_loop_special) simp_all
  also have "\<dots> = ([] @ map (\<lambda>c. str_clause (sort_imports srt c)) ?sp)
       @ (if (False \<or> ?sp \<noteq> []) \<and> ?rest \<noteq> [] then [''''] else [])
       @ map (\<lambda>c. str_clause (sort_imports srt c)) ?rest"
    by (rule lines_loop_rest) simp
  finally show ?thesis using ms by simp
qed

lemma sorted_keys_sorted_clauses:
  "sorted (map (clause_sort_key fancy) (sorted_clauses fancy cs))"
  by (simp add: sorted_clauses_sort_key)

lemma merged_grouped:
  assumes "\<forall>c\<in>set cs. \<forall>d\<in>set cs. is_special c \<and> \<not> is_special d \<longrightarrow> fancy_sort_key c < fancy_sort_key d"
  shows "sorted_wrt (\<lambda>a b. is_special b \<longrightarrow> is_special a) (merge_clauses (sorted_clauses True cs))"
proof -
  let ?S = "sorted_clauses True cs"
  let ?sp = "\<lambda>p. dict_contains special_cases (get_top_level p)"
  have "sorted_wrt (\<lambda>a b. fancy_sort_key a \<le> fancy_sort_key b) ?S"
    using sorted_keys_sorted_clauses[of True cs]
    by (simp add: clause_sort_key_def sorted_map)
  then have "sorted_wrt (\<lambda>a b. is_special b \<longrightarrow> is_special a) ?S"
  proof (rule sorted_wrt_mono_rel[rotated])
    fix a b assume "a \<in> set ?S" "b \<in> set ?S" "fancy_sort_key a \<le> fancy_sort_key b"
    then have ab: "a \<in> set cs" "b \<in> set cs" "\<not> fancy_sort_key b < fancy_sort_key a"
      by (simp_all add: set_sorted_clauses)
    show "is_special b \<longrightarrow> is_special a"
    proof (rule ccontr)
      assume "\<not> (is_special b \<longrightarrow> is_special a)"
      then have "is_special b \<and> \<not> is_special a" by simp
      with assms ab(1,2) have "fancy_sort_key b < fancy_sort_key a" by blast
      with ab(3) show False by simp
    qed
  qed
  then have "sorted_wrt (\<lambda>p q. ?sp q \<longrightarrow> ?sp p) (map path ?S)"
    by (simp add: sorted_wrt_map is_special_def)
  then have "sorted_wrt (\<lambda>p q. ?sp q \<longrightarrow> ?sp p) (remdups_adj (map path ?S))"
    by (rule sorted_wrt_remdups_adj)
  then have "sorted_wrt (\<lambda>p q. ?sp q \<longrightarrow> ?sp p) (map path (merge_clauses ?S))"
    by (simp add: path_merge_clauses)
  then show ?thesis
    by (simp add: sorted_wrt_map is_special_def)
qed

text \<open>
  Where the sort key of every special clause (top-level segment java, javax, scala or
  scalax) is strictly below the sort key of every other clause, the output is grouped as the
  class docstring describes: the special clauses, then one empty line exactly when both groups
  are non-empty, then the other clauses, and no clause line is empty.
\<close>

lemma fancy_groups_when_ranked:
  assumes "\<forall>c\<in>set cs. \<forall>d\<in>set cs.
             is_special c \<and> \<not> is_special d \<longrightarrow> fancy_sort_key c < fancy_sort_key d"
  shows "processed_clauses True srt cs
           = filter is_special (processed_clauses True srt cs)
             @ filter (\<lambda>c. \<not> is_special c) (processed_clauses True srt cs)
    \<and> block_lines True srt cs
           = map str_clause (filter is_special (processed_clauses True srt cs))
             @ (if filter is_special (processed_clauses True srt cs) \<noteq> []
                   \<and> filter (\<lambda>c. \<not> is_special c) (processed_clauses True srt cs) \<noteq> []
                then [''''] else [])
             @ map str_clause (filter (\<lambda>c. \<not> is_special c) (processed_clauses True srt cs))
    \<and> [] \<notin> set (map str_clause (processed_clauses True srt cs))"
proof -
  let ?M = "merge_clauses (sorted_clauses True cs)"
  have g: "sorted_wrt (\<lambda>a b. is_special b \<longrightarrow> is_special a) ?M"
    using assms by (rule merged_grouped)
  have fs: "filter is_special (processed_clauses True srt cs)
      = map (sort_imports srt) (filter is_special ?M)"
    by (simp add: processed_clauses_eq filter_map o_def is_special_sort_imports)
  have fr: "filter (\<lambda>c. \<not> is_special c) (processed_clauses True srt cs)
      = map (sort_imports srt) (filter (\<lambda>c. \<not> is_special c) ?M)"
    by (simp add: processed_clauses_eq filter_map o_def is_special_sort_imports)
  have "?M = filter is_special ?M @ filter (\<lambda>c. \<not> is_special c) ?M"
    using g by (rule split_by_sorted_wrt)
  then have "map (sort_imports srt) ?M
      = map (sort_imports srt) (filter is_special ?M)
        @ map (sort_imports srt) (filter (\<lambda>c. \<not> is_special c) ?M)"
    by (metis map_append)
  then have a: "processed_clauses True srt cs
      = filter is_special (processed_clauses True srt cs)
        @ filter (\<lambda>c. \<not> is_special c) (processed_clauses True srt cs)"
    by (simp add: fs fr) (simp add: processed_clauses_eq)
  have b: "block_lines True srt cs
      = map str_clause (filter is_special (processed_clauses True srt cs))
        @ (if filter is_special (processed_clauses True srt cs) \<noteq> []
              \<and> filter (\<lambda>c. \<not> is_special c) (processed_clauses True srt cs) \<noteq> []
           then [''''] else [])
        @ map str_clause (filter (\<lambda>c. \<not> is_special c) (processed_clauses True srt cs))"
    unfolding block_lines_def lines_loop_grouped[OF g] fs fr by (simp add: o_def)
  have c: "[] \<notin> set (map str_clause (processed_clauses True srt cs))"
    by (auto simp: str_clause_def str_no_indent_def)
  from a b c show ?thesis by blast
qed

lemma fancy_groups_example:
  "fancy_sort_key (ImportClause (Path ''scala'' [''collection'', ''immutable'']) [ScalaImport ''List'' None])
     < fancy_sort_key (ImportClause (Path ''com'' [''foo'']) [ScalaImport ''Bar'' None])
   \<and> fancy_sort_key (ImportClause (Path ''java'' [''util'']) [ScalaImport ''Map'' None, ScalaImport ''Set'' None])
     < fancy_sort_key (ImportClause (Path ''com'' [''foo'']) [ScalaImport ''Bar'' None])
   \<and> block_lines True sort_by_name
      [ImportClause (Path ''scala'' [''collection'', ''immutable'']) [ScalaImport ''List'' None],
       ImportClause (Path ''java'' [''util'']) [ScalaImport ''Map'' None, ScalaImport ''Set'' None],
       ImportClause (Path ''com'' [''foo'']) [ScalaImport ''Bar'' None]]
     = [''import java.util.{Map, Set}'', ''import scala.collection.immutable.List'', '''',
        ''import com.foo.Bar'']
   \<and> processed_clauses True sort_by_name
      [ImportClause (Path ''scala'' [''collection'', ''immutable'']) [ScalaImport ''List'' None],
       ImportClause (Path ''java'' [''util'']) [ScalaImport ''Map'' None, ScalaImport ''Set'' None],
       ImportClause (Path ''com'' [''foo'']) [ScalaImport ''Bar'' None]]
     = filter is_special (processed_clauses True sort_by_name
      [ImportClause (Path ''scala'' [''collection'', ''immutable'']) [ScalaImport ''List'' None],
       ImportClause (Path ''java'' [''util'']) [ScalaImport ''Map'' None, ScalaImport ''Set'' None],
       ImportClause (Path ''com'' [''foo'']) [ScalaImport ''Bar'' None]])
       @ filter (\<lambda>c. \<not> is_special c) (processed_clauses True sort_by_name
      [ImportClause (Path ''scala'' [''collection'', ''immutable'']) [ScalaImport ''List'' None],
       ImportClause (Path ''java'' [''util'']) [ScalaImport ''Map'' None, ScalaImport ''Set'' None],
       ImportClause (Path ''com'' [''foo'']) [ScalaImport ''Bar'' None]])"
proof -
  let ?c1 = "ImportClause (Path ''scala'' [''collection'', ''immutable'']) [ScalaImport ''List'' None]"
  let ?c2 = "ImportClause (Path ''java'' [''util'']) [ScalaImport ''Map'' None, ScalaImport ''Set'' None]"
  let ?c3 = "ImportClause (Path ''com'' [''foo'']) [ScalaImport ''Bar'' None]"
  have s: "is_special ?c1" "is_special ?c2" "\<not> is_special ?c3"
    by (simp_all add: is_special_def dict_contains_def special_cases_def)
  have k: "fancy_sort_key ?c1 < fancy_sort_key ?c3" "fancy_sort_key ?c2 < fancy_sort_key ?c3"
    by (simp_all add: fancy_sort_key_def dict_get_def special_cases_def path_parts_def path_string_def)
  have h: "\<forall>c\<in>set [?c1, ?c2, ?c3]. \<forall>d\<in>set [?c1, ?c2, ?c3].
      is_special c \<and> \<not> is_special d \<longrightarrow> fancy_sort_key c < fancy_sort_key d"
    using s k by simp
  have v: "block_lines True sort_by_name [?c1, ?c2, ?c3]
     = [''import java.util.{Map, Set}'', ''import scala.collection.immutable.List'', '''',
        ''import com.foo.Bar'']"
    by code_simp
  from fancy_groups_when_ranked[OF h, of sort_by_name] k v show ?thesis by blast
qed

text \<open>
  C2. In fancy mode every java, javax, scala and scalax clause should precede every other
  clause, with one blank line between the two groups. The code does not do this for a
  top-level segment that sorts before the rank prefixes, for instance one that starts with
  a capital letter: for the block \<^verbatim>\<open>import java.util.Map\<close>,
  \<^verbatim>\<open>import Foo.Bar\<close> the special clause comes second and no empty line is
  emitted, although both groups are non-empty.
\<close>

theorem fancy_grouping_fails_for_capital_root:
  "processed_clauses True sort_by_name
      [ImportClause (Path ''java'' [''util'']) [ScalaImport ''Map'' None],
       ImportClause (Path ''Foo'' []) [ScalaImport ''Bar'' None]]
     = [ImportClause (Path ''Foo'' []) [ScalaImport ''Bar'' None],
        ImportClause (Path ''java'' [''util'']) [ScalaImport ''Map'' None]]
   \<and> block_lines True sort_by_name
      [ImportClause (Path ''java'' [''util'']) [ScalaImport ''Map'' None],
       ImportClause (Path ''Foo'' []) [ScalaImport ''Bar'' None]]
     = [''import Foo.Bar'', ''import java.util.Map'']
   \<and> is_special (ImportClause (Path ''java'' [''util'']) [ScalaImport ''Map'' None])
   \<and> \<not> is_special (ImportClause (Path ''Foo'' []) [ScalaImport ''Bar'' None])"
  by code_simp

subsection \<open>The text of a block in strict mode\<close>





subsection \<open>The fancy order looks at paths only\<close>










subsection \<open>One clause per path in fancy mode\<close>
















section \<open>Blank lines around a block\<close>

lemma skip_blank_lines_run:
  "(case rest of BlankLine # r \<Rightarrow> False | _ \<Rightarrow> True) \<Longrightarrow>
   skip_blank_lines (replicate k BlankLine @ rest, out) = (k, (rest, out))"
proof (induction k)
  case 0
  then show ?case by (cases "(rest, out)" rule: skip_blank_lines.cases) auto
next
  case (Suc k)
  then show ?case by simp
qed

lemma parser_match_block_end: "block_ends rest \<Longrightarrow> parser_match (rest, out) = (None, (rest, out))"
  by (cases rest rule: block_ends.cases) simp_all

lemma block_ends_not_blank: "block_ends rest \<Longrightarrow> (case rest of BlankLine # r \<Rightarrow> False | _ \<Rightarrow> True)"
  by (cases rest rule: block_ends.cases) simp_all

lemma block_items_Cons:
  "block_items ((c, k) # bs) = ImportStatement c # replicate k BlankLine @ block_items bs"
  by (simp add: block_items_def)

lemma collect_block_run:
  assumes "block_ends rest"
  shows "collect_block c blk (replicate k BlankLine @ block_items bs @ rest, out)
     = (blk @ c # map fst bs, last (k # map snd bs), (rest, out))"
proof (induction bs arbitrary: c blk k)
  case Nil
  have "skip_blank_lines (replicate k BlankLine @ rest, out) = (k, (rest, out))"
    using assms by (intro skip_blank_lines_run block_ends_not_blank)
  with assms show ?case
    by (subst collect_block.simps) (simp add: block_items_def parser_match_block_end)
next
  case (Cons b bs)
  obtain c' k' where b: "b = (c', k')" by (cases b)
  have "skip_blank_lines (replicate k BlankLine @ (ImportStatement c' # replicate k' BlankLine @ block_items bs @ rest), out)
      = (k, (ImportStatement c' # replicate k' BlankLine @ block_items bs @ rest, out))"
    by (rule skip_blank_lines_run) simp
  then have "collect_block c blk (replicate k BlankLine @ block_items (b # bs) @ rest, out)
      = collect_block c' (blk @ [c]) (replicate k' BlankLine @ block_items bs @ rest, out)"
    by (subst collect_block.simps) (simp add: b block_items_Cons)
  also have "\<dots> = ((blk @ [c]) @ c' # map fst bs, last (k' # map snd bs), (rest, out))"
    by (rule Cons.IH)
  finally show ?case by (simp add: b)
qed

text \<open>
  C8. For a block of statements, each followed by any number of blank lines, that ends at
  the end of the input or at other text, the cursor emits the processed text of the block's
  clauses and then as many newline characters as there are blank lines after the last
  statement; the blank lines after the earlier statements are consumed and leave no trace
  in the output.
\<close>

theorem only_trailing_blank_lines_kept:
  assumes "block_ends rest"
  shows "apply_to_rewrite_cursor fancy srt (block_items ((c, k) # bs) @ rest, out)
     = apply_to_rewrite_cursor fancy srt
         (rest, out @ process_import_block fancy srt (map fst ((c, k) # bs))
                  @ replicate (snd (last ((c, k) # bs))) (CHR 10))"
proof -
  have "apply_to_rewrite_cursor fancy srt (block_items ((c, k) # bs) @ rest, out)
      = apply_loop fancy srt (Some c, (replicate k BlankLine @ block_items bs @ rest, out))"
    by (simp add: apply_to_rewrite_cursor_def block_items_Cons)
  also have "\<dots> = apply_loop fancy srt
      (parser_search
         (emit (replicate (last (k # map snd bs)) (CHR 10))
            (emit (process_import_block fancy srt ([] @ c # map fst bs)) (rest, out))))"
    by (simp only: apply_loop.simps collect_block_run[OF assms] prod.case)
  finally show ?thesis
    by (simp add: apply_to_rewrite_cursor_def emit_def last_map)
qed

theorem only_trailing_blank_lines_kept_witness:
  "block_ends [OtherText ''class A'']
   \<and> apply_to_rewrite_cursor False sort_by_name
       (block_items [(ImportClause (Path ''a'' [''b'']) [ScalaImport ''D'' None], 2),
                     (ImportClause (Path ''a'' [''b'']) [ScalaImport ''C'' None], 1)]
        @ [OtherText ''class A''], [])
     = ([], ''import a.b.{C, D}'' @ [CHR 10] @ [CHR 10] @ ''class A'')"
proof -
  let ?c = "ImportClause (Path ''a'' [''b'']) [ScalaImport ''D'' None]"
  let ?d = "ImportClause (Path ''a'' [''b'']) [ScalaImport ''C'' None]"
  have h: "block_ends [OtherText ''class A'']" by simp
  have p: "process_import_block False sort_by_name [?c, ?d] = ''import a.b.{C, D}'' @ [CHR 10]"
    by code_simp
  have "apply_to_rewrite_cursor False sort_by_name ([OtherText ''class A''], out)
      = ([], out @ ''class A'')" for out
    by (simp add: apply_to_rewrite_cursor_def)
  with only_trailing_blank_lines_kept[OF h, of False sort_by_name ?c 2 "[(?d, 1)]" "[]"] p h
  show ?thesis by simp
qed

section \<open>Processing the processed block again\<close>

text \<open>
  In fancy mode the sort key depends on the path only, so merging leaves the clauses in
  comparator order, and processing the processed clauses again changes nothing (for every
  idempotent \<^verbatim>\<open>sort_imports\<close>).
\<close>

lemma merge_adj_distinct_adj:
  "distinct_adj (map path (cur # xs)) \<Longrightarrow> merge_adj cur xs = cur # xs"
  by (induction xs arbitrary: cur) (auto simp: distinct_adj_Cons)

lemma merge_clauses_distinct_adj:
  "distinct_adj (map path xs) \<Longrightarrow> merge_clauses xs = xs"
  by (cases xs) (simp_all add: merge_clauses_Nil merge_clauses_Cons merge_adj_distinct_adj del: distinct_adj_Cons_Cons)

lemma fancy_sort_key_by_path:
  "fancy_sort_key c = fancy_sort_key (ImportClause (path c) [])"
  by (simp add: fancy_sort_key_def)

lemma sorted_keys_processed:
  "sorted (map fancy_sort_key (processed_clauses True srt cs))"
proof -
  let ?S = "sorted_clauses True cs"
  let ?kp = "\<lambda>p. fancy_sort_key (ImportClause p [])"
  have k: "map fancy_sort_key xs = map ?kp (map path xs)" for xs
    using fancy_sort_key_by_path by (simp add: o_def)
  have "sorted (map fancy_sort_key ?S)"
    using sorted_keys_sorted_clauses[of True cs] by (simp add: clause_sort_key_def)
  then have "sorted_wrt (\<lambda>p q. ?kp p \<le> ?kp q) (map path ?S)"
    unfolding k by (simp only: sorted_map)
  then have "sorted_wrt (\<lambda>p q. ?kp p \<le> ?kp q) (remdups_adj (map path ?S))"
    by (rule sorted_wrt_remdups_adj)
  then have "sorted (map ?kp (map path (processed_clauses True srt cs)))"
    unfolding path_processed_clauses by (simp only: sorted_map)
  then show ?thesis unfolding k .
qed

lemma lines_loop_sorted_imports:
  assumes "\<And>xs. srt (srt xs) = srt xs"
  shows "lines_loop fancy srt (map (sort_imports srt) ms) st = lines_loop fancy srt ms st"
proof (induction ms arbitrary: st)
  case Nil
  show ?case by simp
next
  case (Cons m ms)
  obtain ls b out where st: "st = (ls, b, out)" by (cases st)
  have i: "sort_imports srt (sort_imports srt m) = sort_imports srt m"
    by (simp add: sort_imports_def assms)
  show ?case unfolding st using Cons.IH by (auto simp: Let_def i)
qed

lemma fancy_processing_idempotent:
  assumes "\<And>xs. srt (srt xs) = srt xs"
  shows "processed_clauses True srt (processed_clauses True srt cs) = processed_clauses True srt cs
    \<and> process_import_block True srt (processed_clauses True srt cs)
        = process_import_block True srt cs"
proof -
  let ?M = "merge_clauses (sorted_clauses True cs)"
  let ?P = "processed_clauses True srt cs"
  have s: "sorted_clauses True ?P = ?P"
    unfolding sorted_clauses_sort_key clause_sort_key_def if_True
    by (rule sort_key_id_if_sorted) (rule sorted_keys_processed)
  have "distinct_adj (map path ?P)"
    unfolding path_processed_clauses by simp
  then have m: "merge_clauses (sorted_clauses True ?P) = ?P"
    unfolding s by (rule merge_clauses_distinct_adj)
  have P: "?P = map (sort_imports srt) ?M" by (rule processed_clauses_eq)
  have l: "lines_loop True srt ?P ([], False, []) = lines_loop True srt ?M ([], False, [])"
    unfolding P by (rule lines_loop_sorted_imports[OF assms])
  have "processed_clauses True srt ?P
      = snd (snd (lines_loop True srt (merge_clauses (sorted_clauses True ?P)) ([], False, [])))"
    by (rule processed_clauses_def)
  also have "\<dots> = snd (snd (lines_loop True srt ?M ([], False, [])))"
    by (simp only: m l)
  also have "\<dots> = ?P"
    by (rule processed_clauses_def[symmetric])
  finally have a: "processed_clauses True srt ?P = ?P" .
  have "block_lines True srt ?P
      = fst (lines_loop True srt (merge_clauses (sorted_clauses True ?P)) ([], False, []))"
    by (rule block_lines_def)
  also have "\<dots> = fst (lines_loop True srt ?M ([], False, []))"
    by (simp only: m l)
  also have "\<dots> = block_lines True srt cs"
    by (rule block_lines_def[symmetric])
  finally have "process_import_block True srt ?P = process_import_block True srt cs"
    by (simp only: process_import_block_def)
  with a show ?thesis by blast
qed

text \<open>
  C4. In strict mode the sort key is the text of a clause, which merging changes: the clauses
  are sorted before they are merged and are not sorted again. For the three statements
  \<^verbatim>\<open>import foo.bar.Bar1\<close>, \<^verbatim>\<open>import foo.bar.Bar2\<close> and
  \<^verbatim>\<open>import foo.bar.Aaa._\<close> the first pass puts the merged, braced clause after
  \<^verbatim>\<open>import foo.bar.Aaa._\<close>, and a second pass over that output swaps the two.
\<close>

theorem strict_reprocessing_changes_output:
  "process_import_block False sort_by_name
      [ImportClause (Path ''foo'' [''bar'']) [ScalaImport ''Bar1'' None],
       ImportClause (Path ''foo'' [''bar'']) [ScalaImport ''Bar2'' None],
       ImportClause (Path ''foo'' [''bar'', ''Aaa'']) [ScalaImport ''_'' None]]
     = ''import foo.bar.Aaa._'' @ [CHR 10] @ ''import foo.bar.{Bar1, Bar2}'' @ [CHR 10]
   \<and> processed_clauses False sort_by_name
      [ImportClause (Path ''foo'' [''bar'']) [ScalaImport ''Bar1'' None],
       ImportClause (Path ''foo'' [''bar'']) [ScalaImport ''Bar2'' None],
       ImportClause (Path ''foo'' [''bar'', ''Aaa'']) [ScalaImport ''_'' None]]
     = [ImportClause (Path ''foo'' [''bar'', ''Aaa'']) [ScalaImport ''_'' None],
        ImportClause (Path ''foo'' [''bar'']) [ScalaImport ''Bar1'' None, ScalaImport ''Bar2'' None]]
   \<and> process_import_block False sort_by_name
      [ImportClause (Path ''foo'' [''bar'', ''Aaa'']) [ScalaImport ''_'' None],
       ImportClause (Path ''foo'' [''bar'']) [ScalaImport ''Bar1'' None, ScalaImport ''Bar2'' None]]
     = ''import foo.bar.{Bar1, Bar2}'' @ [CHR 10] @ ''import foo.bar.Aaa._'' @ [CHR 10]"
  by code_simp

end
